theory Spec2Isabelle
  imports Complex_Main
begin

section \<open>Errors raised by the notebooks' library calls\<close>

text \<open>
  The notebooks are Python. An exception raised by a call is a value of the type
  \<open>py_error\<close>, and a computation that can raise returns \<open>py_error + 'a\<close>.
  \<open>IndexError\<close> is what \<^verbatim>\<open>Series.iloc[k]\<close> raises for a position outside the
  series, \<open>ValueError\<close> is what \<^verbatim>\<open>scipy.optimize.brentq\<close> raises when the end
  points of its bracket do not have opposite signs.
\<close>

datatype py_error = IndexError | ValueError

section \<open>The area and length filter\<close>

text \<open>
  The notebook "Filter the glacier length and area time series":
  \<^verbatim>\<open>
  roll_yrs = 5
  ts = ds.area.to_series()
  ts = ts.rolling(roll_yrs).min()
  ts.iloc[0:roll_yrs] = ts.iloc[roll_yrs]
  \<close>
  A series is the list of its values in index order; a value is \<open>None\<close> where pandas
  holds NaN. The filter only compares values, so the values are of any linear order.
\<close>

definition roll_yrs :: nat where
  "roll_yrs = 5"

text \<open>
  The minimum of one window, as \<^verbatim>\<open>rolling(w).min()\<close> computes it with its default
  \<^verbatim>\<open>min_periods = w\<close>: NaN unless the window holds \<open>w\<close> observations that are not
  NaN.
\<close>

definition window_min :: "nat \<Rightarrow> 'a::linorder option list \<Rightarrow> 'a option" where
  "window_min w ws =
     (case map the (filter (\<lambda>v. v \<noteq> None) ws) of
        [] \<Rightarrow> None
      | x # xs \<Rightarrow> if length (x # xs) < w then None else Some (fold min xs x))"

text \<open>
  \<^verbatim>\<open>ts.rolling(w).min()\<close>: the window of position \<open>i\<close> is the \<open>w\<close> positions ending
  at \<open>i\<close>, cut at the start of the series.
\<close>

definition rolling_min :: "nat \<Rightarrow> 'a::linorder option list \<Rightarrow> 'a option list" where
  "rolling_min w ts =
     map (\<lambda>i. window_min w (drop (Suc i - w) (take (Suc i) ts))) [0..<length ts]"

text \<open>
  \<^verbatim>\<open>ts.iloc[0:k] = v\<close>: the positions below \<open>k\<close> that exist are set to \<open>v\<close>.
\<close>

definition iloc_set_slice :: "nat \<Rightarrow> 'a \<Rightarrow> 'a list \<Rightarrow> 'a list" where
  "iloc_set_slice k v ts = replicate (min k (length ts)) v @ drop k ts"

text \<open>\<^verbatim>\<open>ts.iloc[k]\<close> raises IndexError outside the series.\<close>

definition iloc :: "'a list \<Rightarrow> nat \<Rightarrow> py_error + 'a" where
  "iloc ts k = (if k < length ts then Inr (ts ! k) else Inl IndexError)"

definition spike_filter :: "'a::linorder option list \<Rightarrow> py_error + 'a option list" where
  "spike_filter s =
     (let ts = rolling_min roll_yrs s
      in case iloc ts roll_yrs of
           Inl e \<Rightarrow> Inl e
         | Inr v \<Rightarrow> Inr (iloc_set_slice roll_yrs v ts))"

section \<open>The workflow that builds and publishes the book\<close>

text \<open>
  The workflow file "Build Pages" has one job, \<^verbatim>\<open>build_pages\<close>, of eight steps:
  \<^verbatim>\<open>
  on:
    push:
      branches: [master, stable, v1.5.3]
    pull_request:
      branches: [master, stable, v1.5.3]
  jobs:
    build_pages:
      steps:
        - name: Checkout
        - name: Fix git permission check
        - name: Cache
        - name: Install Dependencies
        - name: Build Book
        - name: Upload Build Artifacts
        - name: Push Book
          if: github.event_name != 'pull_request'
        - name: Shrink download cache
  \<close>
  An event is the name of what happened and the branch it is about (the branch pushed
  to, or the base branch of the pull request).
\<close>

record event =
  event_name :: string
  branch :: string

text \<open>The one form of \<^verbatim>\<open>if:\<close> expression the file uses: \<^verbatim>\<open>github.event_name != '...'\<close>.\<close>

datatype cond = Event_name_neq string

record step =
  step_name :: string
  step_if :: "cond option"

definition push_branches :: "string list" where
  "push_branches = [''master'', ''stable'', ''v1.5.3'']"

definition pull_request_branches :: "string list" where
  "pull_request_branches = [''master'', ''stable'', ''v1.5.3'']"

definition steps :: "step list" where
  "steps =
    [\<lparr>step_name = ''Checkout'', step_if = None\<rparr>,
     \<lparr>step_name = ''Fix git permission check'', step_if = None\<rparr>,
     \<lparr>step_name = ''Cache'', step_if = None\<rparr>,
     \<lparr>step_name = ''Install Dependencies'', step_if = None\<rparr>,
     \<lparr>step_name = ''Build Book'', step_if = None\<rparr>,
     \<lparr>step_name = ''Upload Build Artifacts'', step_if = None\<rparr>,
     \<lparr>step_name = ''Push Book'', step_if = Some (Event_name_neq ''pull_request'')\<rparr>,
     \<lparr>step_name = ''Shrink download cache'', step_if = None\<rparr>]"

text \<open>The \<^verbatim>\<open>on:\<close> block: which events start the workflow.\<close>

definition triggers :: "event \<Rightarrow> bool" where
  "triggers ev \<longleftrightarrow>
     (event_name ev = ''push'' \<and> branch ev \<in> set push_branches) \<or>
     (event_name ev = ''pull_request'' \<and> branch ev \<in> set pull_request_branches)"

fun eval_cond :: "event \<Rightarrow> cond \<Rightarrow> bool" where
  "eval_cond ev (Event_name_neq n) = (event_name ev \<noteq> n)"

definition step_enabled :: "event \<Rightarrow> step \<Rightarrow> bool" where
  "step_enabled ev s = (case step_if s of None \<Rightarrow> True | Some c \<Rightarrow> eval_cond ev c)"

text \<open>
  The steps of a job run in order. A step whose \<^verbatim>\<open>if:\<close> is false is skipped; a step
  that fails ends the job, since no step of this file asks to run after a failure.
  \<open>ok\<close> tells which steps succeed when run; the result is the names of the steps that
  were run, in order.
\<close>

fun run_steps :: "event \<Rightarrow> (string \<Rightarrow> bool) \<Rightarrow> step list \<Rightarrow> string list" where
  "run_steps ev ok [] = []"
| "run_steps ev ok (s # ss) =
     (if step_enabled ev s
      then step_name s # (if ok (step_name s) then run_steps ev ok ss else [])
      else run_steps ev ok ss)"

definition build_pages :: "event \<Rightarrow> (string \<Rightarrow> bool) \<Rightarrow> string list" where
  "build_pages ev ok = (if triggers ev then run_steps ev ok steps else [])"

section \<open>Reconciling the calving law with ice deformation\<close>

text \<open>
  The notebook "Ice thickness inversion with frontal ablation: a case study" looks for
  the water depth at which the calving law and the ice-deformation law give the same
  frontal thickness:
  \<^verbatim>\<open>
  def to_solve_default(wd):
      fl = calving_flux_from_depth(gdir, water_depth=wd, water_level=0)
      oggm = sia_thickness(slope, width, fl['flux'] * 1e9 / cfg.SEC_IN_YEAR)
      return fl['thick'] - oggm

  abs_min = optimize.minimize(to_solve_default, [1], bounds=((1e-4, 1e4), ))
  optimize.brentq(to_solve_default, 1e-4, abs_min['x'][0])
  optimize.brentq(to_solve_default, abs_min['x'][0], 1e4)
  opt = optimize.brentq(to_solve_default, abs_min['x'][0], 1e4)
  \<close>
  \<^verbatim>\<open>calving_flux_from_depth\<close> and \<^verbatim>\<open>sia_thickness\<close> belong to the glacier model,
  \<^verbatim>\<open>minimize\<close> and \<^verbatim>\<open>brentq\<close> to scipy; none of them is defined in the notebooks,
  so they are parameters here, and so is the constant \<^verbatim>\<open>cfg.SEC_IN_YEAR\<close>. Depths,
  thicknesses and fluxes are real numbers.
\<close>

text \<open>The keys of the result of \<^verbatim>\<open>calving_flux_from_depth\<close> that the notebook reads.\<close>

record calving =
  flux :: real
  thick :: real
  water_depth :: real

definition to_solve_default ::
  "(real \<Rightarrow> calving) \<Rightarrow> (real \<Rightarrow> real \<Rightarrow> real \<Rightarrow> real) \<Rightarrow> real \<Rightarrow> real \<Rightarrow> real \<Rightarrow> real \<Rightarrow> real" where
  "to_solve_default calving_flux_from_depth sia_thickness sec_in_year slope width wd =
     (let fl = calving_flux_from_depth wd;
          oggm = sia_thickness slope width (flux fl * 1000000000 / sec_in_year)
      in thick fl - oggm)"

text \<open>The search domain \<^verbatim>\<open>(1e-4, 1e4)\<close>.\<close>

definition wd_lo :: real where
  "wd_lo = 1 / 10000"

definition wd_hi :: real where
  "wd_hi = 10000"

text \<open>
  \<open>minimize f x0 bounds\<close> stands for \<^verbatim>\<open>optimize.minimize(f, [x0], bounds=(bounds, ))['x'][0]\<close>
  and \<open>brentq f a b\<close> for \<^verbatim>\<open>optimize.brentq(f, a, b)\<close>, which raises ValueError when
  it refuses its bracket.
\<close>

type_synonym minimizer = "(real \<Rightarrow> real) \<Rightarrow> real \<Rightarrow> real \<times> real \<Rightarrow> real"

type_synonym root_finder = "(real \<Rightarrow> real) \<Rightarrow> real \<Rightarrow> real \<Rightarrow> py_error + real"

definition abs_min :: "minimizer \<Rightarrow> (real \<Rightarrow> real) \<Rightarrow> real" where
  "abs_min minimize f = minimize f 1 (wd_lo, wd_hi)"

text \<open>The cell that prints "Optimum water depth 1" and "Optimum water depth 2".\<close>

definition optimum_water_depths ::
  "minimizer \<Rightarrow> root_finder \<Rightarrow> (real \<Rightarrow> real) \<Rightarrow> py_error + real \<times> real" where
  "optimum_water_depths minimize brentq f =
     (case brentq f wd_lo (abs_min minimize f) of
        Inl e \<Rightarrow> Inl e
      | Inr r1 \<Rightarrow>
          (case brentq f (abs_min minimize f) wd_hi of
             Inl e \<Rightarrow> Inl e
           | Inr r2 \<Rightarrow> Inr (r1, r2)))"

text \<open>The cell that keeps one solution.\<close>

definition opt :: "minimizer \<Rightarrow> root_finder \<Rightarrow> (real \<Rightarrow> real) \<Rightarrow> py_error + real" where
  "opt minimize brentq f = brentq f (abs_min minimize f) wd_hi"

text \<open>
  What scipy documents of \<^verbatim>\<open>brentq(f, a, b)\<close>, in exact arithmetic: the values of
  \<open>f\<close> at \<open>a\<close> and \<open>b\<close> must not have the same sign, or it raises ValueError;
  otherwise it returns a zero of \<open>f\<close> between \<open>a\<close> and \<open>b\<close>.
\<close>

definition brentq_contract :: "root_finder \<Rightarrow> (real \<Rightarrow> real) \<Rightarrow> bool" where
  "brentq_contract brentq f \<longleftrightarrow>
     (\<forall>a b. a \<le> b \<longrightarrow>
        (if 0 < f a * f b then brentq f a b = Inl ValueError
         else \<exists>r. brentq f a b = Inr r \<and> a \<le> r \<and> r \<le> b \<and> f r = 0))"

text \<open>
  What the notebook expects of \<^verbatim>\<open>optimize.minimize\<close> with bounds, which it calls the
  absolute minimum: from any start point, the point returned lies within the bounds
  and the function is nowhere smaller within the bounds.
\<close>

definition is_minimum_on :: "(real \<Rightarrow> real) \<Rightarrow> real \<Rightarrow> real \<Rightarrow> real \<Rightarrow> bool" where
  "is_minimum_on f lo hi m \<longleftrightarrow> lo \<le> m \<and> m \<le> hi \<and> (\<forall>x. lo \<le> x \<and> x \<le> hi \<longrightarrow> f m \<le> f x)"

definition minimize_contract :: "minimizer \<Rightarrow> (real \<Rightarrow> real) \<Rightarrow> bool" where
  "minimize_contract minimize f \<longleftrightarrow>
     (\<forall>x0 lo hi. lo \<le> hi \<longrightarrow> is_minimum_on f lo hi (minimize f x0 (lo, hi)))"

subsection \<open>Two example fronts\<close>

text \<open>
  A front whose difference of thicknesses is \<open>wd\<^sup>2 - 7 wd + 10\<close>, with zeros at the
  water depths 2 and 5 and its minimum at 7/2. A second front has the same difference
  up to the water depth 5 and stays below zero beyond it: the difference touches zero
  at 5 without changing sign. The root finder and the minimiser are right for both.
\<close>

definition example_calving :: "real \<Rightarrow> calving" where
  "example_calving wd = \<lparr>flux = wd, thick = wd + 10, water_depth = wd\<rparr>"

definition example_sia :: "real \<Rightarrow> real \<Rightarrow> real \<Rightarrow> real" where
  "example_sia slope width q = slope * width * (8 * q - q * q)"


definition example_minimize :: minimizer where
  "example_minimize f x0 bounds =
     (case bounds of (lo, hi) \<Rightarrow>
        if lo \<le> 7 / 2 \<and> 7 / 2 \<le> hi then 7 / 2
        else if f lo \<le> f hi then lo
        else hi)"

definition example_brentq :: root_finder where
  "example_brentq f a b =
     (if 0 < f a * f b then Inl ValueError
      else if a \<le> 2 \<and> 2 \<le> b then Inr 2
      else Inr 5)"

definition example_d :: "real \<Rightarrow> real" where
  "example_d = to_solve_default example_calving example_sia 1000000000 1 1"


section \<open>Properties of the area and length filter\<close>

subsection \<open>One window\<close>

lemma fold_min_Min: "fold min xs x = Min (set (x # xs))"
  using Min.set_eq_fold [of x xs] by simp

lemma window_min_Some:
  "xs \<noteq> [] \<Longrightarrow> w \<le> length xs \<Longrightarrow> window_min w (map Some xs) = Some (Min (set xs))"
  by (cases xs) (simp_all add: window_min_def comp_def fold_min_Min del: set_simps)

lemma window_min_short:
  "length xs < w \<Longrightarrow> window_min w (map Some xs) = None"
  by (cases xs) (simp_all add: window_min_def comp_def)

lemma rolling_min_nth:
  "i < length xs \<Longrightarrow>
   rolling_min w (map Some xs) ! i = window_min w (map Some (drop (Suc i - w) (take (Suc i) xs)))"
  by (simp add: rolling_min_def drop_map take_map)

lemma window_values:
  assumes "i < length xs"
  shows "drop (Suc i - w) (take (Suc i) xs) = map ((!) xs) [Suc i - w..<Suc i]"
proof (rule nth_equalityI)
  have "min (length xs) (Suc i) = Suc i"
    using assms by simp
  then show "length (drop (Suc i - w) (take (Suc i) xs)) = length (map ((!) xs) [Suc i - w..<Suc i])"
    by (simp del: upt_Suc)
next
  fix k
  assume "k < length (drop (Suc i - w) (take (Suc i) xs))"
  with assms have k: "Suc i - w + k < Suc i"
    by (auto simp: min_def split: if_splits)
  then have "drop (Suc i - w) (take (Suc i) xs) ! k = xs ! (Suc i - w + k)"
    using assms by simp
  moreover have "map ((!) xs) [Suc i - w..<Suc i] ! k = xs ! (Suc i - w + k)"
    using k by (simp del: upt_Suc)
  ultimately show "drop (Suc i - w) (take (Suc i) xs) ! k = map ((!) xs) [Suc i - w..<Suc i] ! k"
    by simp
qed

lemma window_set:
  "i < length xs \<Longrightarrow> set (drop (Suc i - w) (take (Suc i) xs)) = (!) xs ` {Suc i - w..i}"
  by (simp add: window_values atLeastLessThanSuc_atLeastAtMost del: upt_Suc)

lemma rolling_min_full:
  assumes "i < length xs" "0 < w" "w \<le> Suc i"
  shows "rolling_min w (map Some xs) ! i = Some (Min ((!) xs ` {Suc i - w..i}))"
proof -
  let ?ws = "drop (Suc i - w) (take (Suc i) xs)"
  have len: "length ?ws = w" using assms by (auto simp: min_def)
  then have "?ws \<noteq> []" using assms by auto
  with len have "window_min w (map Some ?ws) = Some (Min (set ?ws))"
    by (simp add: window_min_Some)
  then show ?thesis using assms by (simp add: rolling_min_nth window_set)
qed

lemma rolling_min_warmup:
  assumes "i < length xs" "Suc i < w"
  shows "rolling_min w (map Some xs) ! i = None"
  using assms by (simp add: rolling_min_nth window_min_short)

lemma window_Min_le:
  assumes "Suc i - w \<le> j" "j \<le> i"
  shows "Min ((!) xs ` {Suc i - w..i}) \<le> xs ! j"
  using assms by (intro Min_le) auto

subsection \<open>The filtered series\<close>

lemma spike_filter_Inr:
  assumes "roll_yrs < length s"
  shows "spike_filter s =
    Inr (replicate roll_yrs (rolling_min roll_yrs s ! roll_yrs) @ drop roll_yrs (rolling_min roll_yrs s))"
proof -
  have "length (rolling_min roll_yrs s) = length s"
    by (simp add: rolling_min_def)
  with assms show ?thesis
    by (simp add: spike_filter_def iloc_def iloc_set_slice_def Let_def min_def)
qed

lemma spike_filter_short:
  assumes "length s \<le> roll_yrs"
  shows "spike_filter s = Inl IndexError"
  using assms by (simp add: spike_filter_def iloc_def rolling_min_def Let_def)


lemma spike_filter_values:
  fixes xs :: "'a::linorder list"
  assumes long: "roll_yrs < length xs"
  shows "\<exists>ys. spike_filter (map Some xs) = Inr ys \<and> length ys = length xs \<and>
    (\<forall>i. roll_yrs \<le> i \<and> i < length xs \<longrightarrow>
       ys ! i = Some (Min ((!) xs ` {Suc i - roll_yrs..i})) \<and>
       Min ((!) xs ` {Suc i - roll_yrs..i}) \<le> xs ! i) \<and>
    (\<forall>i. i < roll_yrs \<longrightarrow> ys ! i = Some (Min ((!) xs ` {1..roll_yrs}))) \<and>
    (\<forall>i. roll_yrs - 1 \<le> i \<and> i < length xs \<longrightarrow>
       rolling_min roll_yrs (map Some xs) ! i = Some (Min ((!) xs ` {Suc i - roll_yrs..i}))) \<and>
    (\<forall>i. i < length xs \<longrightarrow>
       (\<exists>v. ys ! i = Some v \<and>
          (\<forall>j. Suc (max i roll_yrs) - roll_yrs \<le> j \<and> j \<le> max i roll_yrs \<longrightarrow> v \<le> xs ! j)))"
proof -
  let ?ts = "rolling_min roll_yrs (map Some xs)"
  let ?ys = "replicate roll_yrs (?ts ! roll_yrs) @ drop roll_yrs ?ts"
  have w: "0 < roll_yrs" by (simp add: roll_yrs_def)
  have len_ts: "length ?ts = length xs" by (simp add: rolling_min_def)
  have res: "spike_filter (map Some xs) = Inr ?ys"
    using long by (simp add: spike_filter_Inr)
  have len: "length ?ys = length xs"
    using long by (simp add: len_ts)
  have roll: "?ts ! i = Some (Min ((!) xs ` {Suc i - roll_yrs..i}))"
    if "roll_yrs - 1 \<le> i" "i < length xs" for i
    using that w by (intro rolling_min_full) auto
  have below: "Min ((!) xs ` {Suc i - roll_yrs..i}) \<le> xs ! i" for i
    by (rule window_Min_le) (use w in auto)
  have tail: "?ys ! i = ?ts ! i" if "roll_yrs \<le> i" "i < length xs" for i
    using that by (simp add: nth_append len_ts)
  have kept: "?ys ! i = Some (Min ((!) xs ` {Suc i - roll_yrs..i}))"
    if "roll_yrs \<le> i" "i < length xs" for i
    using that tail [of i] roll [of i] by simp
  have "Suc roll_yrs - roll_yrs = 1" by simp
  with roll [of roll_yrs] long
  have at_w: "?ts ! roll_yrs = Some (Min ((!) xs ` {1..roll_yrs}))"
    by simp
  have head: "?ys ! i = ?ts ! roll_yrs" if "i < roll_yrs" for i
    using that by (simp add: nth_append)
  have win: "\<exists>v. ?ys ! i = Some v \<and>
      (\<forall>j. Suc (max i roll_yrs) - roll_yrs \<le> j \<and> j \<le> max i roll_yrs \<longrightarrow> v \<le> xs ! j)"
    if i: "i < length xs" for i
  proof -
    let ?k = "max i roll_yrs"
    have k: "roll_yrs - 1 \<le> ?k" "?k < length xs" using i long by auto
    have "?ys ! i = ?ts ! ?k"
    proof (cases "i < roll_yrs")
      case True
      then show ?thesis using head [of i] by (simp add: max_def)
    next
      case False
      then show ?thesis using tail [of i] i by (simp add: max_def)
    qed
    then have "?ys ! i = Some (Min ((!) xs ` {Suc ?k - roll_yrs..?k}))"
      using roll [OF k] by simp
    moreover have "Min ((!) xs ` {Suc ?k - roll_yrs..?k}) \<le> xs ! j"
      if "Suc ?k - roll_yrs \<le> j \<and> j \<le> ?k" for j
      using that by (intro window_Min_le) auto
    ultimately show ?thesis by blast
  qed
  have first: "?ys ! i = Some (Min ((!) xs ` {1..roll_yrs}))" if "i < roll_yrs" for i
    using head [OF that] at_w by simp
  show ?thesis
    using res len kept below first roll win by blast
qed

text \<open>
  Claim C9, as stated, fails in three places. A series of five values has no position
  5, and the filter raises IndexError instead of returning a series. On
  \<open>[0, 1, 1, 1, 1, 1, 7]\<close> the value returned at position 4 is 1, not 0, the least of
  the five values ending there: position 4 is among those overwritten. And on six
  zeros, five fives and six zeros the returned series has a single 5 at position 10
  between zeros: a spike as long as the window survives as a spike.
\<close>

theorem spike_filter_rolling_minimum_counterexample:
  "spike_filter (map Some [0, 1, 1, 1, 1 :: int]) = Inl IndexError \<and>
   spike_filter (map Some [0, 1, 1, 1, 1, 1, 7 :: int]) =
     Inr [Some 1, Some 1, Some 1, Some 1, Some 1, Some 1, Some 1] \<and>
   Min (set (take roll_yrs [0, 1, 1, 1, 1, 1, 7 :: int])) = 0 \<and>
   spike_filter (map Some [0, 0, 0, 0, 0, 0, 5, 5, 5, 5, 5, 0, 0, 0, 0, 0, 0 :: int]) =
     Inr [Some 0, Some 0, Some 0, Some 0, Some 0, Some 0, Some 0, Some 0, Some 0, Some 0,
          Some 5, Some 0, Some 0, Some 0, Some 0, Some 0, Some 0]"
proof -
  have "spike_filter (map Some [0, 1, 1, 1, 1 :: int]) = Inl IndexError"
    by code_simp
  moreover have "spike_filter (map Some [0, 1, 1, 1, 1, 1, 7 :: int]) =
     Inr [Some 1, Some 1, Some 1, Some 1, Some 1, Some 1, Some 1]"
    by code_simp
  moreover have "Min (set (take roll_yrs [0, 1, 1, 1, 1, 1, 7 :: int])) = 0"
    by (simp add: roll_yrs_def)
  moreover have
    "spike_filter (map Some [0, 0, 0, 0, 0, 0, 5, 5, 5, 5, 5, 0, 0, 0, 0, 0, 0 :: int]) =
     Inr [Some 0, Some 0, Some 0, Some 0, Some 0, Some 0, Some 0, Some 0, Some 0, Some 0,
          Some 5, Some 0, Some 0, Some 0, Some 0, Some 0, Some 0]"
    by code_simp
  ultimately show ?thesis by blast
qed

text \<open>
  Claim C9, amended. The filter of the area and length series is a rolling minimum over
  \<open>roll_yrs = 5\<close> years. A series of at most \<open>roll_yrs\<close> values raises IndexError.
  For a longer series \<open>xs\<close> without NaN, the returned series has the length of \<open>xs\<close>;
  at every position \<open>i \<ge> roll_yrs\<close> it holds the least of the \<open>roll_yrs\<close> original
  values ending at \<open>i\<close>, hence at most \<open>xs ! i\<close>; its first \<open>roll_yrs\<close> positions all
  hold the rolling minimum of position \<open>roll_yrs\<close>, the least of the original values
  at positions 1 to \<open>roll_yrs\<close>. Before the overwrite, the rolling minimum is that
  least value from position \<open>roll_yrs - 1\<close> on. No returned value exceeds an original
  value of the window it was taken from.
\<close>

theorem spike_filter_rolling_minimum:
  fixes xs :: "'a::linorder list"
  shows "(length xs \<le> roll_yrs \<longrightarrow> spike_filter (map Some xs) = Inl IndexError) \<and>
    (roll_yrs < length xs \<longrightarrow>
      (\<exists>ys. spike_filter (map Some xs) = Inr ys \<and> length ys = length xs \<and>
        (\<forall>i. roll_yrs \<le> i \<and> i < length xs \<longrightarrow>
           ys ! i = Some (Min ((!) xs ` {Suc i - roll_yrs..i})) \<and>
           Min ((!) xs ` {Suc i - roll_yrs..i}) \<le> xs ! i) \<and>
        (\<forall>i. i < roll_yrs \<longrightarrow> ys ! i = Some (Min ((!) xs ` {1..roll_yrs}))) \<and>
        (\<forall>i. roll_yrs - 1 \<le> i \<and> i < length xs \<longrightarrow>
           rolling_min roll_yrs (map Some xs) ! i =
             Some (Min ((!) xs ` {Suc i - roll_yrs..i}))) \<and>
        (\<forall>i. i < length xs \<longrightarrow>
           (\<exists>v. ys ! i = Some v \<and>
              (\<forall>j. Suc (max i roll_yrs) - roll_yrs \<le> j \<and> j \<le> max i roll_yrs \<longrightarrow>
                 v \<le> xs ! j)))))"
proof (intro conjI impI)
  assume "length xs \<le> roll_yrs"
  then show "spike_filter (map Some xs) = Inl IndexError"
    by (simp add: spike_filter_short)
next
  assume "roll_yrs < length xs"
  then show "\<exists>ys. spike_filter (map Some xs) = Inr ys \<and> length ys = length xs \<and>
        (\<forall>i. roll_yrs \<le> i \<and> i < length xs \<longrightarrow>
           ys ! i = Some (Min ((!) xs ` {Suc i - roll_yrs..i})) \<and>
           Min ((!) xs ` {Suc i - roll_yrs..i}) \<le> xs ! i) \<and>
        (\<forall>i. i < roll_yrs \<longrightarrow> ys ! i = Some (Min ((!) xs ` {1..roll_yrs}))) \<and>
        (\<forall>i. roll_yrs - 1 \<le> i \<and> i < length xs \<longrightarrow>
           rolling_min roll_yrs (map Some xs) ! i =
             Some (Min ((!) xs ` {Suc i - roll_yrs..i}))) \<and>
        (\<forall>i. i < length xs \<longrightarrow>
           (\<exists>v. ys ! i = Some v \<and>
              (\<forall>j. Suc (max i roll_yrs) - roll_yrs \<le> j \<and> j \<le> max i roll_yrs \<longrightarrow>
                 v \<le> xs ! j)))"
    by (rule spike_filter_values)
qed

theorem spike_filter_rolling_minimum_witness:
  "length [3, 1, 4, 1, 5 :: int] \<le> roll_yrs \<and>
   spike_filter (map Some [3, 1, 4, 1, 5 :: int]) = Inl IndexError \<and>
   roll_yrs < length [3, 1, 4, 1, 5, 9, 2, 6 :: int] \<and>
   spike_filter (map Some [3, 1, 4, 1, 5, 9, 2, 6 :: int]) =
     Inr [Some 1, Some 1, Some 1, Some 1, Some 1, Some 1, Some 1, Some 1]"
proof -
  have short: "length [3, 1, 4, 1, 5 :: int] \<le> roll_yrs"
    by (simp add: roll_yrs_def)
  have long: "roll_yrs < length [3, 1, 4, 1, 5, 9, 2, 6 :: int]"
    by (simp add: roll_yrs_def)
  from spike_filter_rolling_minimum [of "[3, 1, 4, 1, 5 :: int]"] short
  have a: "spike_filter (map Some [3, 1, 4, 1, 5 :: int]) = Inl IndexError"
    by blast
  from spike_filter_rolling_minimum [of "[3, 1, 4, 1, 5, 9, 2, 6 :: int]"] long
  obtain ys where "spike_filter (map Some [3, 1, 4, 1, 5, 9, 2, 6 :: int]) = Inr ys"
    by blast
  moreover have "spike_filter (map Some [3, 1, 4, 1, 5, 9, 2, 6 :: int]) =
     Inr [Some 1, Some 1, Some 1, Some 1, Some 1, Some 1, Some 1, Some 1]"
    by code_simp
  ultimately show ?thesis using short long a by simp
qed

section \<open>Properties of the workflow\<close>

lemma run_steps_names:
  "n \<in> set (run_steps ev ok ss) \<Longrightarrow> \<exists>s \<in> set ss. step_name s = n \<and> step_enabled ev s"
  by (induction ss) (auto split: if_splits)

lemma push_book_needs_no_pull_request:
  assumes "''Push Book'' \<in> set (build_pages ev ok)"
  shows "event_name ev \<noteq> ''pull_request''"
proof -
  from assms have "''Push Book'' \<in> set (run_steps ev ok steps)"
    by (simp add: build_pages_def split: if_splits)
  then obtain s where "s \<in> set steps" "step_name s = ''Push Book''" "step_enabled ev s"
    using run_steps_names by blast
  then show ?thesis
    by (auto simp: steps_def step_enabled_def)
qed

lemma pull_request_run:
  assumes "b \<in> set pull_request_branches"
  shows "build_pages \<lparr>event_name = ''pull_request'', branch = b\<rparr> (\<lambda>n. True) =
    [''Checkout'', ''Fix git permission check'', ''Cache'', ''Install Dependencies'',
     ''Build Book'', ''Upload Build Artifacts'', ''Shrink download cache'']"
  using assms by (simp add: build_pages_def triggers_def steps_def step_enabled_def)

lemma push_run:
  assumes "b \<in> set push_branches"
  shows "build_pages \<lparr>event_name = ''push'', branch = b\<rparr> (\<lambda>n. True) =
    [''Checkout'', ''Fix git permission check'', ''Cache'', ''Install Dependencies'',
     ''Build Book'', ''Upload Build Artifacts'', ''Push Book'', ''Shrink download cache'']"
  using assms by (simp add: build_pages_def triggers_def steps_def step_enabled_def)


text \<open>
  Claim C10. The step "Push Book", which publishes the built book, never runs when the
  event is a pull request, whatever the branch and whichever steps succeed. A pull
  request on a configured branch runs every other step, among them "Build Book" and
  "Upload Build Artifacts"; a push on a configured branch runs all eight steps, so it
  builds and publishes. The two runs are those in which every step succeeds.
\<close>

theorem push_book_never_on_pull_request:
  "(\<forall>ev ok. event_name ev = ''pull_request'' \<longrightarrow> ''Push Book'' \<notin> set (build_pages ev ok)) \<and>
   (\<forall>b. b \<in> set pull_request_branches \<longrightarrow>
      build_pages \<lparr>event_name = ''pull_request'', branch = b\<rparr> (\<lambda>n. True) =
        [''Checkout'', ''Fix git permission check'', ''Cache'', ''Install Dependencies'',
         ''Build Book'', ''Upload Build Artifacts'', ''Shrink download cache'']) \<and>
   (\<forall>b. b \<in> set push_branches \<longrightarrow>
      build_pages \<lparr>event_name = ''push'', branch = b\<rparr> (\<lambda>n. True) =
        [''Checkout'', ''Fix git permission check'', ''Cache'', ''Install Dependencies'',
         ''Build Book'', ''Upload Build Artifacts'', ''Push Book'', ''Shrink download cache''])"
  using push_book_needs_no_pull_request pull_request_run push_run by blast

theorem push_book_never_on_pull_request_witness:
  "event_name \<lparr>event_name = ''pull_request'', branch = ''master''\<rparr> = ''pull_request'' \<and>
   ''Push Book'' \<notin> set (build_pages \<lparr>event_name = ''pull_request'', branch = ''master''\<rparr> (\<lambda>n. True)) \<and>
   ''master'' \<in> set pull_request_branches \<and>
   build_pages \<lparr>event_name = ''pull_request'', branch = ''master''\<rparr> (\<lambda>n. True) =
     [''Checkout'', ''Fix git permission check'', ''Cache'', ''Install Dependencies'',
      ''Build Book'', ''Upload Build Artifacts'', ''Shrink download cache''] \<and>
   ''stable'' \<in> set push_branches \<and>
   ''Push Book'' \<in> set (build_pages \<lparr>event_name = ''push'', branch = ''stable''\<rparr> (\<lambda>n. True))"
proof -
  have a: "event_name \<lparr>event_name = ''pull_request'', branch = ''master''\<rparr> = ''pull_request''"
    by simp
  have b: "''master'' \<in> set pull_request_branches"
    by (simp add: pull_request_branches_def)
  have c: "''stable'' \<in> set push_branches"
    by (simp add: push_branches_def)
  note t = push_book_never_on_pull_request
  from t a have "''Push Book'' \<notin> set (build_pages \<lparr>event_name = ''pull_request'', branch = ''master''\<rparr> (\<lambda>n. True))"
    by blast
  moreover from t b have "build_pages \<lparr>event_name = ''pull_request'', branch = ''master''\<rparr> (\<lambda>n. True) =
     [''Checkout'', ''Fix git permission check'', ''Cache'', ''Install Dependencies'',
      ''Build Book'', ''Upload Build Artifacts'', ''Shrink download cache'']"
    by blast
  moreover from t c have "build_pages \<lparr>event_name = ''push'', branch = ''stable''\<rparr> (\<lambda>n. True) =
        [''Checkout'', ''Fix git permission check'', ''Cache'', ''Install Dependencies'',
         ''Build Book'', ''Upload Build Artifacts'', ''Push Book'', ''Shrink download cache'']"
    by blast
  ultimately show ?thesis using a b c by simp
qed

section \<open>Properties of the reconciliation\<close>

subsection \<open>What the contracts of the library functions give\<close>

lemma brentq_root:
  assumes "brentq_contract brentq f" "a \<le> b" "f a * f b \<le> 0"
  shows "\<exists>r. brentq f a b = Inr r \<and> a \<le> r \<and> r \<le> b \<and> f r = 0"
proof -
  from assms(3) have "\<not> 0 < f a * f b" by simp
  with assms(1,2) show ?thesis
    unfolding brentq_contract_def by metis
qed

lemma brentq_refuses:
  assumes "brentq_contract brentq f" "a \<le> b" "0 < f a * f b"
  shows "brentq f a b = Inl ValueError"
  using assms unfolding brentq_contract_def by metis

lemma located_minimum:
  assumes "minimize_contract minimize f"
  shows "is_minimum_on f wd_lo wd_hi (abs_min minimize f)"
proof -
  have "wd_lo \<le> wd_hi" by (simp add: wd_lo_def wd_hi_def)
  with assms show ?thesis
    unfolding minimize_contract_def abs_min_def by blast
qed

lemma minimum_value:
  assumes "is_minimum_on f lo hi m" "is_minimum_on f lo hi x"
  shows "f m = f x"
proof -
  from assms have "f m \<le> f x" "f x \<le> f m"
    unfolding is_minimum_on_def by blast+
  then show ?thesis by simp
qed

lemma roots_around:
  assumes c: "brentq_contract brentq f"
    and lo: "wd_lo \<le> m" and hi: "m \<le> wd_hi"
    and below: "f wd_lo * f m < 0"
    and above: "f m * f wd_hi < 0"
  shows "wd_lo < m \<and> m < wd_hi \<and>
    (\<exists>r1 r2. brentq f wd_lo m = Inr r1 \<and> brentq f m wd_hi = Inr r2 \<and>
      wd_lo \<le> r1 \<and> r1 < m \<and> m < r2 \<and> r2 \<le> wd_hi \<and> f r1 = 0 \<and> f r2 = 0)"
proof -
  have "m \<noteq> wd_lo"
  proof
    assume "m = wd_lo"
    with below have "f wd_lo * f wd_lo < 0" by simp
    then show False by (simp add: not_less [symmetric] mult_less_0_iff)
  qed
  with lo have l: "wd_lo < m" by simp
  have "m \<noteq> wd_hi"
  proof
    assume "m = wd_hi"
    with above have "f wd_hi * f wd_hi < 0" by simp
    then show False by (simp add: mult_less_0_iff)
  qed
  with hi have h: "m < wd_hi" by simp
  from brentq_root [OF c lo] below
  obtain r1 where r1: "brentq f wd_lo m = Inr r1" "wd_lo \<le> r1" "r1 \<le> m" "f r1 = 0"
    by auto
  from brentq_root [OF c hi] above
  obtain r2 where r2: "brentq f m wd_hi = Inr r2" "m \<le> r2" "r2 \<le> wd_hi" "f r2 = 0"
    by auto
  have nz: "f m \<noteq> 0" using below by auto
  with r1 have "r1 \<noteq> m" by auto
  with r1 have s1: "r1 < m" by simp
  from nz r2 have "r2 \<noteq> m" by auto
  with r2 have s2: "m < r2" by simp
  from l h r1 r2 s1 s2 show ?thesis by blast
qed

lemma roots_at_minimum:
  assumes b: "brentq_contract brentq f" and mc: "minimize_contract minimize f"
    and x: "is_minimum_on f wd_lo wd_hi x_min"
    and below: "f wd_lo * f x_min < 0"
    and above: "f x_min * f wd_hi < 0"
  shows "is_minimum_on f wd_lo wd_hi (abs_min minimize f) \<and>
    wd_lo < abs_min minimize f \<and> abs_min minimize f < wd_hi \<and>
    (\<exists>r1 r2. optimum_water_depths minimize brentq f = Inr (r1, r2) \<and>
      brentq f wd_lo (abs_min minimize f) = Inr r1 \<and>
      brentq f (abs_min minimize f) wd_hi = Inr r2 \<and>
      wd_lo \<le> r1 \<and> r1 < abs_min minimize f \<and> abs_min minimize f < r2 \<and> r2 \<le> wd_hi \<and>
      f r1 = 0 \<and> f r2 = 0)"
proof -
  let ?m = "abs_min minimize f"
  have m: "is_minimum_on f wd_lo wd_hi ?m"
    using mc by (rule located_minimum)
  then have v: "f ?m = f x_min"
    using x by (rule minimum_value)
  from m have lo: "wd_lo \<le> ?m" and hi: "?m \<le> wd_hi"
    by (simp_all add: is_minimum_on_def)
  from roots_around [OF b lo hi] below above v
  have r: "wd_lo < ?m \<and> ?m < wd_hi \<and>
    (\<exists>r1 r2. brentq f wd_lo ?m = Inr r1 \<and> brentq f ?m wd_hi = Inr r2 \<and>
      wd_lo \<le> r1 \<and> r1 < ?m \<and> ?m < r2 \<and> r2 \<le> wd_hi \<and> f r1 = 0 \<and> f r2 = 0)"
    by simp
  then obtain r1 r2 where rr: "brentq f wd_lo ?m = Inr r1" "brentq f ?m wd_hi = Inr r2"
      "wd_lo \<le> r1" "r1 < ?m" "?m < r2" "r2 \<le> wd_hi" "f r1 = 0" "f r2 = 0"
    by blast
  then have "optimum_water_depths minimize brentq f = Inr (r1, r2)"
    by (simp add: optimum_water_depths_def)
  with m r rr show ?thesis by blast
qed


text \<open>With no sign change above the located minimum, the notebook's last call raises.\<close>

lemma opt_refused:
  assumes "brentq_contract brentq f" "abs_min minimize f \<le> wd_hi"
    and "0 < f (abs_min minimize f) * f wd_hi"
  shows "opt minimize brentq f = Inl ValueError"
  using assms by (simp add: opt_def brentq_refuses)

subsection \<open>The example fronts\<close>

lemma example_d: "example_d wd = (wd - 2) * (wd - 5)"
  by (simp add: example_d_def to_solve_default_def example_calving_def example_sia_def algebra_simps)


lemma quad_diff:
  fixes x y :: real
  shows "(x - 2) * (x - 5) - (y - 2) * (y - 5) = (x - y) * (x + y - 7)"
  by (simp add: algebra_simps)

lemma quad_least:
  fixes x :: real
  shows "- (9 / 4) \<le> (x - 2) * (x - 5)"
proof -
  have "(x - 2) * (x - 5) + 9 / 4 = (x - 7 / 2) * (x - 7 / 2)"
    by (simp add: algebra_simps)
  moreover have "0 \<le> (x - 7 / 2) * (x - 7 / 2)"
    by simp
  ultimately show ?thesis by linarith
qed

lemma quad_least_only:
  fixes x :: real
  assumes "(x - 2) * (x - 5) \<le> - (9 / 4)"
  shows "x = 7 / 2"
proof -
  have "(x - 2) * (x - 5) + 9 / 4 = (x - 7 / 2) * (x - 7 / 2)"
    by (simp add: algebra_simps)
  with assms have "(x - 7 / 2) * (x - 7 / 2) \<le> 0"
    by linarith
  then have "x - 7 / 2 = 0"
    by (simp add: mult_le_0_iff) linarith
  then show ?thesis by simp
qed

lemma quad_decreasing:
  fixes x y :: real
  assumes "x \<le> y" "y \<le> 7 / 2"
  shows "(y - 2) * (y - 5) \<le> (x - 2) * (x - 5)"
proof -
  have "0 \<le> (x - y) * (x + y - 7)"
    using assms by (intro mult_nonpos_nonpos) simp_all
  with quad_diff [of x y] show ?thesis by linarith
qed

lemma quad_increasing:
  fixes x y :: real
  assumes "7 / 2 \<le> x" "x \<le> y"
  shows "(x - 2) * (x - 5) \<le> (y - 2) * (y - 5)"
proof -
  have "0 \<le> (y - x) * (y + x - 7)"
    using assms by (intro mult_nonneg_nonneg) simp_all
  with quad_diff [of y x] show ?thesis by linarith
qed

lemma quad_nonpos:
  fixes x :: real
  shows "(x - 2) * (x - 5) \<le> 0 \<longleftrightarrow> 2 \<le> x \<and> x \<le> 5"
  by (auto simp: mult_le_0_iff)

lemma quad_nonneg:
  fixes x :: real
  shows "0 \<le> (x - 2) * (x - 5) \<longleftrightarrow> x \<le> 2 \<or> 5 \<le> x"
  by (auto simp: zero_le_mult_iff)

lemma quad_pos:
  fixes x :: real
  shows "0 < (x - 2) * (x - 5) \<longleftrightarrow> x < 2 \<or> 5 < x"
  by (auto simp: zero_less_mult_iff)

lemma quad_neg:
  fixes x :: real
  shows "(x - 2) * (x - 5) < 0 \<longleftrightarrow> 2 < x \<and> x < 5"
  by (auto simp: mult_less_0_iff)





text \<open>The root finder of the examples keeps the contract of \<^verbatim>\<open>brentq\<close> for both.\<close>

lemma example_sign:
  fixes a b :: real
  assumes "a \<le> b" "\<not> 0 < (a - 2) * (a - 5) * ((b - 2) * (b - 5))"
  shows "(a \<le> 2 \<and> 2 \<le> b) \<or> (a \<le> 5 \<and> 5 \<le> b)"
proof -
  from assms(2) have p: "\<not> (0 < (a - 2) * (a - 5) \<and> 0 < (b - 2) * (b - 5))"
    and n: "\<not> ((a - 2) * (a - 5) < 0 \<and> (b - 2) * (b - 5) < 0)"
    by (simp_all only: zero_less_mult_iff) blast+
  from p have "\<not> ((a < 2 \<or> 5 < a) \<and> (b < 2 \<or> 5 < b))"
    by (simp add: quad_pos)
  moreover from n have "\<not> ((2 < a \<and> a < 5) \<and> (2 < b \<and> b < 5))"
    by (simp add: quad_neg)
  ultimately show ?thesis using assms(1) by auto
qed


lemma example_contract: "brentq_contract example_brentq example_d"
  unfolding brentq_contract_def example_brentq_def
  using example_sign by (auto simp: example_d)


text \<open>The minimiser of the examples keeps the contract of \<^verbatim>\<open>minimize\<close> for both.\<close>

lemma example_minimize_contract:
  assumes least: "\<And>x. f (7 / 2) \<le> f x"
    and ends: "\<And>lo hi x. lo \<le> x \<Longrightarrow> x \<le> hi \<Longrightarrow> \<not> (lo \<le> 7 / 2 \<and> 7 / 2 \<le> hi) \<Longrightarrow>
      f lo \<le> f x \<or> f hi \<le> f x"
  shows "minimize_contract example_minimize f"
  unfolding minimize_contract_def is_minimum_on_def
proof (intro allI impI)
  fix x0 lo hi :: real
  assume le: "lo \<le> hi"
  let ?m = "example_minimize f x0 (lo, hi)"
  show "lo \<le> ?m \<and> ?m \<le> hi \<and> (\<forall>x. lo \<le> x \<and> x \<le> hi \<longrightarrow> f ?m \<le> f x)"
  proof (cases "lo \<le> 7 / 2 \<and> 7 / 2 \<le> hi")
    case True
    then have eq: "?m = 7 / 2" by (simp add: example_minimize_def)
    have "f ?m \<le> f x" for x unfolding eq by (rule least)
    moreover have "lo \<le> ?m \<and> ?m \<le> hi" unfolding eq using True .
    ultimately show ?thesis by blast
  next
    case False
    have m: "?m = (if f lo \<le> f hi then lo else hi)"
      by (simp only: example_minimize_def prod.case False if_False)
    then have "f ?m \<le> f lo" "f ?m \<le> f hi" by auto
    moreover have "f lo \<le> f x \<or> f hi \<le> f x" if "lo \<le> x \<and> x \<le> hi" for x
      using that False ends [of lo x hi] by blast
    ultimately have "f ?m \<le> f x" if "lo \<le> x \<and> x \<le> hi" for x
      using that by fastforce
    moreover from m le have "lo \<le> ?m \<and> ?m \<le> hi" by auto
    ultimately show ?thesis by blast
  qed
qed

lemma example_least: "example_d (7 / 2) \<le> example_d x"
  using quad_least [of x] by (simp add: example_d)


lemma example_ends:
  assumes "lo \<le> x" "x \<le> hi" "\<not> (lo \<le> 7 / 2 \<and> 7 / 2 \<le> hi)"
  shows "example_d lo \<le> example_d x \<or> example_d hi \<le> example_d x"
proof (cases "hi \<le> 7 / 2")
  case True
  with assms(2) show ?thesis by (simp add: example_d quad_decreasing)
next
  case False
  with assms have "7 / 2 \<le> lo" by auto
  with assms(1) show ?thesis by (simp add: example_d quad_increasing)
qed


lemma example_minimizes: "minimize_contract example_minimize example_d"
  using example_least example_ends by (rule example_minimize_contract)


lemma example_domain: "wd_lo \<le> 7 / 2 \<and> 7 / 2 \<le> wd_hi"
  by (simp add: wd_lo_def wd_hi_def)

lemma example_abs_min: "abs_min example_minimize f = 7 / 2"
  by (simp add: abs_min_def example_minimize_def wd_lo_def wd_hi_def)

text \<open>Both differences are least at the water depth 7/2 and nowhere else.\<close>

lemma example_minimum: "is_minimum_on example_d wd_lo wd_hi x \<longleftrightarrow> x = 7 / 2"
proof
  assume "is_minimum_on example_d wd_lo wd_hi x"
  then have "example_d x \<le> example_d (7 / 2)"
    by (simp add: is_minimum_on_def wd_lo_def wd_hi_def)
  then have "(x - 2) * (x - 5) \<le> - (9 / 4)"
    by (simp add: example_d)
  then show "x = 7 / 2" by (rule quad_least_only)
next
  assume x: "x = 7 / 2"
  show "is_minimum_on example_d wd_lo wd_hi x"
    unfolding x is_minimum_on_def using example_domain example_least by blast
qed


subsection \<open>The two roots and the one that is kept\<close>

text \<open>
  Claim C1. Let \<open>d\<close> be the difference \<^verbatim>\<open>to_solve_default\<close> between the thickness of
  the calving law at a water depth and the thickness the deformation law gives for the
  flux of the calving law there. Suppose \<open>d\<close> has a minimum over \<open>[1e-4, 1e4]\<close> at
  \<open>x_min\<close>, with a sign change of \<open>d\<close> between \<open>1e-4\<close> and \<open>x_min\<close> and another
  between \<open>x_min\<close> and \<open>1e4\<close> (so that \<open>x_min\<close> is interior). Then the point the
  procedure locates first is a minimum of \<open>d\<close> over the domain and is interior, and
  the procedure gets its result from two separate calls of the root finder, one on the
  interval below that point and one on the interval above it; each returns a zero of
  \<open>d\<close>, one strictly below the minimum and one strictly above. The minimiser and the
  root finder are any functions with the contracts of \<^verbatim>\<open>minimize\<close> and \<^verbatim>\<open>brentq\<close>
  for \<open>d\<close>.
\<close>

theorem reconciliation_brackets_both_sides:
  fixes calving_flux_from_depth :: "real \<Rightarrow> calving"
    and sia_thickness :: "real \<Rightarrow> real \<Rightarrow> real \<Rightarrow> real"
    and sec_in_year slope width :: real
  defines "d \<equiv> to_solve_default calving_flux_from_depth sia_thickness sec_in_year slope width"
  assumes "brentq_contract brentq d" and "minimize_contract minimize d"
    and "is_minimum_on d wd_lo wd_hi x_min"
    and "d wd_lo * d x_min < 0"
    and "d x_min * d wd_hi < 0"
  shows "wd_lo < x_min \<and> x_min < wd_hi \<and>
    is_minimum_on d wd_lo wd_hi (abs_min minimize d) \<and>
    wd_lo < abs_min minimize d \<and> abs_min minimize d < wd_hi \<and>
    (\<exists>r1 r2. optimum_water_depths minimize brentq d = Inr (r1, r2) \<and>
      brentq d wd_lo (abs_min minimize d) = Inr r1 \<and>
      brentq d (abs_min minimize d) wd_hi = Inr r2 \<and>
      wd_lo \<le> r1 \<and> r1 < abs_min minimize d \<and> abs_min minimize d < r2 \<and> r2 \<le> wd_hi \<and>
      d r1 = 0 \<and> d r2 = 0)"
proof -
  from assms(4) have "wd_lo \<le> x_min" "x_min \<le> wd_hi"
    by (simp_all add: is_minimum_on_def)
  with roots_around [OF assms(2) this assms(5,6)]
  have "wd_lo < x_min \<and> x_min < wd_hi" by blast
  with roots_at_minimum [OF assms(2-)] show ?thesis by blast
qed

theorem reconciliation_brackets_both_sides_witness:
  "brentq_contract example_brentq example_d \<and>
   minimize_contract example_minimize example_d \<and>
   is_minimum_on example_d wd_lo wd_hi (7 / 2) \<and>
   example_d wd_lo * example_d (7 / 2) < 0 \<and>
   example_d (7 / 2) * example_d wd_hi < 0 \<and>
   abs_min example_minimize example_d = 7 / 2 \<and>
   optimum_water_depths example_minimize example_brentq example_d = Inr (2, 5) \<and>
   example_d 2 = 0 \<and> example_d 5 = 0"
proof -
  have b: "brentq_contract example_brentq example_d"
    by (rule example_contract)
  have m: "minimize_contract example_minimize example_d"
    by (rule example_minimizes)
  have x: "is_minimum_on example_d wd_lo wd_hi (7 / 2)"
    by (simp only: example_minimum)
  have below: "example_d wd_lo * example_d (7 / 2) < 0"
    by (simp add: wd_lo_def example_d)
  have above: "example_d (7 / 2) * example_d wd_hi < 0"
    by (simp add: wd_hi_def example_d)
  from reconciliation_brackets_both_sides
    [where brentq = example_brentq and calving_flux_from_depth = example_calving
       and sia_thickness = example_sia and sec_in_year = 1000000000 and slope = 1
       and width = 1 and minimize = example_minimize and x_min = "7 / 2",
     folded example_d_def, OF b m x below above]
  obtain r1 r2 where r:
    "optimum_water_depths example_minimize example_brentq example_d = Inr (r1, r2)"
    "example_brentq example_d wd_lo (abs_min example_minimize example_d) = Inr r1"
    "example_brentq example_d (abs_min example_minimize example_d) wd_hi = Inr r2"
    by blast
  have "example_brentq example_d wd_lo (7 / 2) = Inr 2"
    by (simp add: example_brentq_def example_d wd_lo_def)
  moreover have "example_brentq example_d (7 / 2) wd_hi = Inr 5"
    by (simp add: example_brentq_def example_d wd_hi_def)
  ultimately have "r1 = 2" "r2 = 5"
    using r(2,3) by (simp_all add: example_abs_min)
  with r(1) have "optimum_water_depths example_minimize example_brentq example_d = Inr (2, 5)"
    by simp
  moreover have "abs_min example_minimize example_d = 7 / 2"
    by (rule example_abs_min)
  moreover have "example_d 2 = 0 \<and> example_d 5 = 0"
    by (simp add: example_d)
  ultimately show ?thesis using b m x below above by blast
qed




end
